theory Spec2Isabelle
  imports Main
begin

section \<open>The chain of blocks (chain.py)\<close>

text \<open>
  The module chain.py defines the class Chain on top of three collaborators whose code
  is in other modules: Block and BlockBuilder (block.py), the protocol buffer messages
  (protos) and the logging helper (util). The class Chain is embedded statement by
  statement. The collaborators are embedded as far as Chain uses them: a block is a
  record of its header fields and its optional body, and what the collaborators
  compute (the digest, the target, the cost, the wire formats, the genesis block) is
  a parameter, collected in the record \<open>env\<close>.

  Python objects are embedded as values: every slot of the list \<open>blocks\<close> holds a block
  of its own. Every method that can raise returns the exception as a value, together
  with the state the chain is left in.
\<close>

subsection \<open>Values\<close>

type_synonym bytes = "nat list"

datatype error = DecodeError | AttributeError | IndexError

text \<open>What \<open>get_body()\<close> hands out: a body message with its field \<open>blobs\<close>, or Python's
  \<open>None\<close>, which has no attribute \<open>blobs\<close>.\<close>

datatype body_obj = PyNone | Body "bytes list"

text \<open>Modelled from the spec: the class Block of block.py is missing. A block has the
  header fields previous hash, nonce and difficulty, and an optional body, an ordered
  sequence of opaque blobs.\<close>

record block =
  prev_hash :: nat
  nonce :: nat
  difficulty :: nat
  body :: "bytes list option"

text \<open>The chain object: \<open>mined_blobs\<close> is a \<open>defaultdict(set)\<close> from the hash of a blob to
  the set of its locations \<open>(block_idx, idx)\<close>; a key never written holds the empty set.\<close>

record chain =
  mined_blobs :: "int \<Rightarrow> (int \<times> nat) set"
  blocks :: "block list"
  cost :: int

text \<open>What the collaborators compute. \<open>digest\<close> is the digest of the header fields read
  as a number, \<open>target\<close> the bound a difficulty asks of it, \<open>cost_of\<close> the cost of a
  difficulty, \<open>genesis_block\<close> the result of \<open>Block.genesis()\<close>, \<open>absent_body\<close> what
  \<open>get_body()\<close> returns on a block without a body, \<open>blob_key\<close> the parsing of a blob as a
  BlobMessage followed by \<open>hash(msg.blob)\<close> (\<open>None\<close> when the parsing raises),
  \<open>block_encode\<close> and \<open>block_decode\<close> the wire format of a block (\<open>None\<close> when the
  decoding raises), \<open>serialize\<close> and \<open>parse\<close> the wire format of the message Chain.\<close>

record env =
  digest :: "nat \<Rightarrow> nat \<Rightarrow> nat \<Rightarrow> nat"
  target :: "nat \<Rightarrow> nat"
  cost_of :: "nat \<Rightarrow> int"
  genesis_block :: block
  absent_body :: body_obj
  blob_key :: "bytes \<Rightarrow> int option"
  block_encode :: "block \<Rightarrow> bool \<Rightarrow> bytes"
  block_decode :: "bytes \<Rightarrow> bool \<Rightarrow> block option"
  serialize :: "bytes list \<Rightarrow> bytes"
  parse :: "bytes \<Rightarrow> bytes list option"

subsection \<open>The methods of Block that Chain calls\<close>

text \<open>Modelled from the spec: \<open>Block.hash()\<close> is missing; it is the digest over the header
  fields only.\<close>

definition hash :: "env \<Rightarrow> block \<Rightarrow> nat" where
  "hash E b = digest E (prev_hash b) (nonce b) (difficulty b)"

text \<open>Modelled from the spec: \<open>Block.is_valid()\<close> is missing; it holds iff the digest read
  as an integer is below the target derived from the difficulty.\<close>

definition block_is_valid :: "env \<Rightarrow> block \<Rightarrow> bool" where
  "block_is_valid E b = (hash E b < target E (difficulty b))"

text \<open>Modelled from the spec: \<open>Block.get_cost()\<close> is missing; the cost is a function of the
  difficulty.\<close>

definition block_get_cost :: "env \<Rightarrow> block \<Rightarrow> int" where
  "block_get_cost E b = cost_of E (difficulty b)"

text \<open>Modelled from the spec: \<open>Block.has_body()\<close> is missing; it holds iff a body is
  attached.\<close>

definition has_body :: "block \<Rightarrow> bool" where
  "has_body b = (body b \<noteq> None)"

text \<open>Modelled from the spec: \<open>Block.get_body()\<close> is missing. It returns the attached
  body; what it returns when there is none is the parameter \<open>absent_body\<close>.\<close>

definition get_body :: "env \<Rightarrow> block \<Rightarrow> body_obj" where
  "get_body E b = (case body b of Some bl \<Rightarrow> Body bl | None \<Rightarrow> absent_body E)"

text \<open>Modelled from the spec: \<open>Block.set_body(body)\<close> is missing; it attaches the body it
  is given and never alters the header.\<close>

definition set_body :: "block \<Rightarrow> body_obj \<Rightarrow> block" where
  "set_body b x = (case x of Body bl \<Rightarrow> b\<lparr>body := Some bl\<rparr> | PyNone \<Rightarrow> b\<lparr>body := None\<rparr>)"

text \<open>Modelled from the spec: the comparison of blocks is missing; two blocks are equal
  iff their headers are equal, whatever their bodies.\<close>

definition block_eq :: "block \<Rightarrow> block \<Rightarrow> bool" where
  "block_eq a b = (prev_hash a = prev_hash b \<and> nonce a = nonce b \<and> difficulty a = difficulty b)"

text \<open>The attribute \<open>blobs\<close> of the result of \<open>get_body()\<close>.\<close>

definition blobs :: "body_obj \<Rightarrow> error + bytes list" where
  "blobs x = (case x of PyNone \<Rightarrow> Inl AttributeError | Body bl \<Rightarrow> Inr bl)"

subsection \<open>Chain\<close>

definition get_cost :: "chain \<Rightarrow> int" where
  "get_cost c = cost c"

text \<open>\<open>__init__\<close>: no blob is mined yet, the list holds the genesis block, the cost is the
  cost of the genesis block.\<close>

definition init :: "env \<Rightarrow> chain" where
  "init E = \<lparr>mined_blobs = (\<lambda>k. {}), blocks = [genesis_block E],
     cost = block_get_cost E (genesis_block E)\<rparr>"

text \<open>The loop of \<open>is_valid\<close>, \<open>for i in range(1, len(self.blocks))\<close>, from index \<open>i\<close> on.\<close>

function is_valid_from :: "env \<Rightarrow> block list \<Rightarrow> nat \<Rightarrow> bool" where
  "is_valid_from E bs i =
     (if i < length bs then
        (let cur = bs ! i; prev = bs ! (i - 1) in
         if prev_hash cur \<noteq> hash E prev \<or> \<not> block_is_valid E cur then False
         else is_valid_from E bs (Suc i))
      else True)"
  by pat_completeness auto
termination
  by (relation "measure (\<lambda>(E, bs, i). length bs - i)") auto

declare is_valid_from.simps [simp del]

text \<open>\<open>is_valid\<close>: \<open>self.blocks[0]\<close> raises IndexError on an empty list.\<close>

definition is_valid :: "env \<Rightarrow> chain \<Rightarrow> error + bool" where
  "is_valid E c =
     (case blocks c of
        [] \<Rightarrow> Inl IndexError
      | g # _ \<Rightarrow>
          if \<not> block_is_valid E g then Inr False
          else Inr (is_valid_from E (blocks c) 1))"

text \<open>The loop of \<open>__add_mined_blobs\<close> over \<open>enumerate(block.get_body().blobs)\<close>, at blob
  index \<open>idx\<close>: parsing a blob can raise, and the entries made so far stay.\<close>

fun add_mined_blobs_loop :: "env \<Rightarrow> chain \<Rightarrow> int \<Rightarrow> nat \<Rightarrow> bytes list \<Rightarrow> (error + unit) \<times> chain" where
  "add_mined_blobs_loop E c block_idx idx [] = (Inr (), c)"
| "add_mined_blobs_loop E c block_idx idx (blob # rest) =
     (case blob_key E blob of
        None \<Rightarrow> (Inl DecodeError, c)
      | Some k \<Rightarrow>
          add_mined_blobs_loop E
            (c\<lparr>mined_blobs := (mined_blobs c)(k := insert (block_idx, idx) (mined_blobs c k))\<rparr>)
            block_idx (Suc idx) rest)"

definition add_mined_blobs :: "env \<Rightarrow> chain \<Rightarrow> int \<Rightarrow> block \<Rightarrow> (error + unit) \<times> chain" where
  "add_mined_blobs E c block_idx b =
     (if \<not> has_body b then (Inr (), c)
      else case blobs (get_body E b) of
             Inl e \<Rightarrow> (Inl e, c)
           | Inr bl \<Rightarrow> add_mined_blobs_loop E c block_idx 0 bl)"

text \<open>\<open>add\<close>: the argument of the logging call, \<open>block.get_body().blobs\<close>, is evaluated
  first; the logging itself leaves no trace in the chain.\<close>

definition add :: "env \<Rightarrow> chain \<Rightarrow> block \<Rightarrow> (error + unit) \<times> chain" where
  "add E c b =
     (case blobs (get_body E b) of
        Inl e \<Rightarrow> (Inl e, c)
      | Inr logged \<Rightarrow>
          (let block_idx = int (length (blocks c)) in
           case add_mined_blobs E c block_idx b of
             (Inl e, c1) \<Rightarrow> (Inl e, c1)
           | (Inr u, c1) \<Rightarrow>
               (Inr (), c1\<lparr>blocks := blocks c1 @ [b], cost := cost c1 + block_get_cost E b\<rparr>)))"

text \<open>Python's \<open>list.insert(idx, x)\<close>: a negative index counts from the end, and an index
  out of range is clamped.\<close>

definition py_insert :: "'a list \<Rightarrow> int \<Rightarrow> 'a \<Rightarrow> 'a list" where
  "py_insert xs idx x =
     (let n = int (length xs);
          j = (if idx < 0 then max 0 (idx + n) else min idx n)
      in take (nat j) xs @ x # drop (nat j) xs)"

definition insert_block :: "env \<Rightarrow> chain \<Rightarrow> int \<Rightarrow> block \<Rightarrow> (error + unit) \<times> chain" where
  "insert_block E c idx b =
     (case add_mined_blobs E c idx b of
        (Inl e, c1) \<Rightarrow> (Inl e, c1)
      | (Inr u, c1) \<Rightarrow>
          (Inr (), c1\<lparr>blocks := py_insert (blocks c1) idx b,
                      cost := cost c1 + block_get_cost E b\<rparr>))"

text \<open>\<open>replace\<close>: \<open>cur\<close> is the object in the list, so \<open>cur.set_body\<close> changes the list.\<close>

definition replace :: "env \<Rightarrow> chain \<Rightarrow> int \<Rightarrow> block \<Rightarrow> (error + bool) \<times> chain" where
  "replace E c idx b =
     (if idx \<le> 0 \<or> idx \<ge> int (length (blocks c)) then (Inr False, c)
      else
        (let cur = blocks c ! nat idx in
         if \<not> block_eq cur b then (Inr False, c)
         else
           (let cur' = set_body cur (get_body E b);
                c1 = c\<lparr>blocks := (blocks c)[nat idx := cur']\<rparr>
            in case add_mined_blobs E c1 idx cur' of
                 (Inl e, c2) \<Rightarrow> (Inl e, c2)
               | (Inr u, c2) \<Rightarrow> (Inr True, c2))))"

subsection \<open>BlockBuilder and \<open>next\<close>\<close>

text \<open>Modelled from the spec: the class BlockBuilder of block.py is missing. It holds
  the parent hash, the difficulty and the blobs collected so far; \<open>add\<close> appends a blob;
  \<open>build\<close> searches a nonce, counting up, until the block is valid, and returns the
  block with the collected blobs as its body. The search need not end: \<open>None\<close> is the
  search that runs forever.\<close>

record block_builder =
  parent_hash :: nat
  builder_difficulty :: nat
  pending :: "bytes list"

definition BlockBuilder :: "nat \<Rightarrow> nat \<Rightarrow> block_builder" where
  "BlockBuilder p d = \<lparr>parent_hash = p, builder_difficulty = d, pending = []\<rparr>"

definition builder_add :: "block_builder \<Rightarrow> bytes \<Rightarrow> block_builder" where
  "builder_add bb blob = bb\<lparr>pending := pending bb @ [blob]\<rparr>"

partial_function (option) mine :: "env \<Rightarrow> block \<Rightarrow> block option" where
  "mine E b = (if block_is_valid E b then Some b else mine E (b\<lparr>nonce := Suc (nonce b)\<rparr>))"

definition build :: "env \<Rightarrow> block_builder \<Rightarrow> block option" where
  "build E bb =
     mine E \<lparr>prev_hash = parent_hash bb, nonce = 0, difficulty = builder_difficulty bb,
             body = Some (pending bb)\<rparr>"

text \<open>\<open>next\<close>: \<open>self.blocks[-1]\<close> raises IndexError on an empty list. The result is paired
  with the chain as the call leaves it.\<close>

definition next_block :: "env \<Rightarrow> chain \<Rightarrow> nat \<Rightarrow> bytes list \<Rightarrow> (error + block) option \<times> chain" where
  "next_block E c d bl =
     (case blocks c of
        [] \<Rightarrow> (Some (Inl IndexError), c)
      | g # rest \<Rightarrow>
          (let prev = last (blocks c);
               builder = BlockBuilder (hash E prev) d;
               builder' = foldl builder_add builder bl
           in (map_option Inr (build E builder'), c)))"

subsection \<open>The wire format\<close>

definition encode :: "env \<Rightarrow> chain \<Rightarrow> bool \<Rightarrow> bytes" where
  "encode E c include_body = serialize E (map (\<lambda>b. block_encode E b include_body) (blocks c))"

text \<open>The loop of \<open>decode\<close> over \<open>chain_data.blocks[1:]\<close>; the chain under construction is
  local, so an exception leaves nothing behind.\<close>

fun decode_blocks :: "env \<Rightarrow> bool \<Rightarrow> bytes list \<Rightarrow> chain \<Rightarrow> error + chain" where
  "decode_blocks E has_bodies [] c = Inr c"
| "decode_blocks E has_bodies (block_data # rest) c =
     (case block_decode E block_data has_bodies of
        None \<Rightarrow> Inl DecodeError
      | Some b \<Rightarrow>
          (case add E c b of
             (Inl e, c') \<Rightarrow> Inl e
           | (Inr u, c') \<Rightarrow> decode_blocks E has_bodies rest c'))"

definition decode :: "env \<Rightarrow> bytes \<Rightarrow> bool \<Rightarrow> error + chain" where
  "decode E data has_bodies =
     (case parse E data of
        None \<Rightarrow> Inl DecodeError
      | Some recs \<Rightarrow> decode_blocks E has_bodies (drop 1 recs) (init E))"

subsection \<open>Bodies\<close>

text \<open>The loop of \<open>get_bodiless_indices\<close> over \<open>enumerate(self.blocks)\<close>, at index \<open>idx\<close>.\<close>

fun bodiless_from :: "nat \<Rightarrow> block list \<Rightarrow> nat list" where
  "bodiless_from idx [] = []"
| "bodiless_from idx (b # bs) =
     (if \<not> has_body b then idx # bodiless_from (Suc idx) bs
      else bodiless_from (Suc idx) bs)"

definition get_bodiless_indices :: "chain \<Rightarrow> nat list" where
  "get_bodiless_indices c = bodiless_from 0 (blocks c)"

text \<open>The loop of \<open>is_complete\<close> over \<open>self.blocks\<close>.\<close>

fun all_have_body :: "block list \<Rightarrow> bool" where
  "all_have_body [] = True"
| "all_have_body (b # bs) = (if \<not> has_body b then False else all_have_body bs)"

definition is_complete :: "env \<Rightarrow> chain \<Rightarrow> error + bool" where
  "is_complete E c =
     (case is_valid E c of
        Inl e \<Rightarrow> Inl e
      | Inr v \<Rightarrow> if \<not> v then Inr False else Inr (all_have_body (blocks c)))"

subsection \<open>Sequences of calls\<close>

datatype op = Add block | Insert int block | Replace int block

text \<open>The chain after one call, whatever the call returned or raised.\<close>

fun apply_op :: "env \<Rightarrow> chain \<Rightarrow> op \<Rightarrow> chain" where
  "apply_op E c (Add b) = snd (add E c b)"
| "apply_op E c (Insert idx b) = snd (insert_block E c idx b)"
| "apply_op E c (Replace idx b) = snd (replace E c idx b)"

fun run :: "env \<Rightarrow> chain \<Rightarrow> op list \<Rightarrow> chain" where
  "run E c [] = c"
| "run E c (x # xs) = run E (apply_op E c x) xs"

subsection \<open>A small instance of the collaborators\<close>

text \<open>An instance of \<open>env\<close> on which the model runs: records are framed by their length,
  a block record is its three header fields followed, when the body is sent, by a
  marker and the framed blobs; the key of a blob is its first byte, and the empty blob
  does not parse.\<close>

definition frame :: "bytes list \<Rightarrow> bytes" where
  "frame rs = concat (map (\<lambda>r. length r # r) rs)"

fun unframe :: "bytes \<Rightarrow> bytes list option" where
  "unframe [] = Some []"
| "unframe (n # xs) =
     (if length xs < n then None
      else map_option ((#) (take n xs)) (unframe (drop n xs)))"

definition sample_block_encode :: "block \<Rightarrow> bool \<Rightarrow> bytes" where
  "sample_block_encode b include_body =
     [prev_hash b, nonce b, difficulty b] @
     (if include_body then (case body b of None \<Rightarrow> [] | Some bl \<Rightarrow> 1 # frame bl) else [])"

definition sample_block_decode :: "bytes \<Rightarrow> bool \<Rightarrow> block option" where
  "sample_block_decode r has_body_data =
     (if length r < 3 then None
      else
        (let hdr = \<lparr>prev_hash = r ! 0, nonce = r ! 1, difficulty = r ! 2, body = None\<rparr>;
             rest = drop 3 r
         in if has_body_data \<and> rest \<noteq> []
            then map_option (\<lambda>bl. hdr\<lparr>body := Some bl\<rparr>) (unframe (tl rest))
            else Some hdr))"

definition sample_blob_key :: "bytes \<Rightarrow> int option" where
  "sample_blob_key blob = (case blob of [] \<Rightarrow> None | x # rest \<Rightarrow> Some (int x))"

definition sample_env :: env where
  "sample_env =
     \<lparr>digest = (\<lambda>p n d. (p + n + d) mod 8),
      target = (\<lambda>d. 8 - d),
      cost_of = (\<lambda>d. 2 ^ d),
      genesis_block = \<lparr>prev_hash = 0, nonce = 0, difficulty = 0, body = Some []\<rparr>,
      absent_body = Body [],
      blob_key = sample_blob_key,
      block_encode = sample_block_encode,
      block_decode = sample_block_decode,
      serialize = frame,
      parse = unframe\<rparr>"

text \<open>Blocks for the instance: \<open>blk1\<close> extends the genesis block and \<open>blk2\<close> extends \<open>blk1\<close>;
  \<open>blk2\<close> has no body; \<open>blk1_other\<close> has the header of \<open>blk1\<close> and another body;
  \<open>blk2_full\<close> has the header of \<open>blk2\<close> and a body; \<open>blk2_bad\<close> has the header of \<open>blk2\<close> and
  a body whose second blob does not parse; \<open>stray\<close> extends nothing.\<close>

definition blk1 :: block where
  "blk1 = \<lparr>prev_hash = 0, nonce = 0, difficulty = 1, body = Some [[5, 1], [6]]\<rparr>"

definition blk2 :: block where
  "blk2 = \<lparr>prev_hash = 1, nonce = 0, difficulty = 1, body = None\<rparr>"

definition blk1_other :: block where
  "blk1_other = \<lparr>prev_hash = 0, nonce = 0, difficulty = 1, body = Some [[9]]\<rparr>"

definition blk2_full :: block where
  "blk2_full = \<lparr>prev_hash = 1, nonce = 0, difficulty = 1, body = Some [[7]]\<rparr>"

definition blk2_bad :: block where
  "blk2_bad = \<lparr>prev_hash = 1, nonce = 0, difficulty = 1, body = Some [[7], []]\<rparr>"

definition stray :: block where
  "stray = \<lparr>prev_hash = 4, nonce = 2, difficulty = 1, body = Some [[3]]\<rparr>"

subsection \<open>Predicates of the statements\<close>


text \<open>Adding a list of blocks one after the other, stopping at the first call of \<open>add\<close>
  that raises.\<close>

fun add_all :: "env \<Rightarrow> chain \<Rightarrow> block list \<Rightarrow> error + chain" where
  "add_all E c [] = Inr c"
| "add_all E c (b # bs) =
     (case add E c b of
        (Inl e, c') \<Rightarrow> Inl e
      | (Inr u, c') \<Rightarrow> add_all E c' bs)"


text \<open>The blocks on which \<open>add\<close> returns: a block with a body all of whose blobs parse, or
  a block without a body when \<open>get_body()\<close> gives an object with the attribute \<open>blobs\<close>.\<close>

definition addable :: "env \<Rightarrow> block \<Rightarrow> bool" where
  "addable E b =
     (case body b of
        Some bl \<Rightarrow> list_all (\<lambda>blob. blob_key E blob \<noteq> None) bl
      | None \<Rightarrow> absent_body E \<noteq> PyNone)"

subsection \<open>Calls that keep the index of blobs in step\<close>





section \<open>Evaluation of the instance\<close>

lemmas sample_defs =
  sample_env_def blk1_def blk2_def blk1_other_def blk2_full_def blk2_bad_def stray_def
  sample_blob_key_def sample_block_encode_def sample_block_decode_def frame_def
  hash_def block_is_valid_def block_get_cost_def has_body_def get_body_def set_body_def
  block_eq_def blobs_def init_def add_def add_mined_blobs_def insert_block_def
  replace_def py_insert_def

section \<open>Validity of the chain\<close>

lemma is_valid_from_iff:
  "is_valid_from E bs i \<longleftrightarrow>
     (\<forall>j. i \<le> j \<and> j < length bs \<longrightarrow>
        prev_hash (bs ! j) = hash E (bs ! (j - 1)) \<and> block_is_valid E (bs ! j))"
proof (induction E bs i rule: is_valid_from.induct)
  case (1 E bs i)
  show ?case
  proof (cases "i < length bs")
    case False
    then have "is_valid_from E bs i"
      by (simp add: is_valid_from.simps [of E bs i])
    with False show ?thesis by auto
  next
    case inrange: True
    show ?thesis
    proof (cases "prev_hash (bs ! i) \<noteq> hash E (bs ! (i - 1)) \<or> \<not> block_is_valid E (bs ! i)")
      case True
      with inrange have "\<not> is_valid_from E bs i"
        by (simp add: is_valid_from.simps [of E bs i] Let_def)
      moreover from True inrange have
        "\<not> (\<forall>j. i \<le> j \<and> j < length bs \<longrightarrow>
        prev_hash (bs ! j) = hash E (bs ! (j - 1)) \<and> block_is_valid E (bs ! j))"
        by (metis order_refl)
      ultimately show ?thesis by simp
    next
      case False
      with inrange have step: "is_valid_from E bs i = is_valid_from E bs (Suc i)"
        by (simp add: is_valid_from.simps [of E bs i] Let_def)
      from False inrange have ih: "is_valid_from E bs (Suc i) \<longleftrightarrow>
        (\<forall>j. Suc i \<le> j \<and> j < length bs \<longrightarrow>
        prev_hash (bs ! j) = hash E (bs ! (j - 1)) \<and> block_is_valid E (bs ! j))"
        using "1.IH" [of "bs ! i" "bs ! (i - 1)"] by simp
      have "(\<forall>j. i \<le> j \<and> j < length bs \<longrightarrow>
        prev_hash (bs ! j) = hash E (bs ! (j - 1)) \<and> block_is_valid E (bs ! j)) \<longleftrightarrow>
        (\<forall>j. Suc i \<le> j \<and> j < length bs \<longrightarrow>
        prev_hash (bs ! j) = hash E (bs ! (j - 1)) \<and> block_is_valid E (bs ! j))"
        using False by (metis Suc_leI le_neq_implies_less Suc_leD)
      with step ih show ?thesis by simp
    qed
  qed
qed

lemma is_valid_nonempty:
  "blocks c \<noteq> [] \<Longrightarrow>
   is_valid E c = Inr (block_is_valid E (blocks c ! 0) \<and> is_valid_from E (blocks c) 1)"
  by (cases "blocks c") (auto simp: is_valid_def)

lemma hash_body [simp]: "hash E (b\<lparr>body := x\<rparr>) = hash E b"
  by (simp add: hash_def)

lemma block_is_valid_body [simp]: "block_is_valid E (b\<lparr>body := x\<rparr>) = block_is_valid E b"
  by (simp add: block_is_valid_def)

text \<open>
  Claim C1. \<open>is_valid\<close> returns true iff the block at index 0 passes its own validity
  check and every later block carries the hash of its predecessor and passes its own
  validity check. A block that fails makes the result false whatever follows it in the
  list, and the result does not depend on the body of any block.
\<close>

theorem is_valid_spec:
  "(blocks c \<noteq> [] \<longrightarrow>
      is_valid E c = Inr (block_is_valid E (blocks c ! 0) \<and>
        (\<forall>i. 0 < i \<and> i < length (blocks c) \<longrightarrow>
           prev_hash (blocks c ! i) = hash E (blocks c ! (i - 1)) \<and>
           block_is_valid E (blocks c ! i)))) \<and>
   (k < length (blocks c) \<and>
      (if k = 0 then \<not> block_is_valid E (blocks c ! 0)
       else prev_hash (blocks c ! k) \<noteq> hash E (blocks c ! (k - 1)) \<or>
            \<not> block_is_valid E (blocks c ! k)) \<longrightarrow>
      is_valid E (c\<lparr>blocks := take (Suc k) (blocks c) @ rest\<rparr>) = Inr False) \<and>
   is_valid E (c\<lparr>blocks := map (\<lambda>b. b\<lparr>body := f b\<rparr>) (blocks c)\<rparr>) = is_valid E c"
proof (intro conjI impI)
  assume "blocks c \<noteq> []"
  then show "is_valid E c = Inr (block_is_valid E (blocks c ! 0) \<and>
        (\<forall>i. 0 < i \<and> i < length (blocks c) \<longrightarrow>
           prev_hash (blocks c ! i) = hash E (blocks c ! (i - 1)) \<and>
           block_is_valid E (blocks c ! i)))"
    by (simp add: is_valid_nonempty is_valid_from_iff Suc_le_eq)
next
  assume a: "k < length (blocks c) \<and>
      (if k = 0 then \<not> block_is_valid E (blocks c ! 0)
       else prev_hash (blocks c ! k) \<noteq> hash E (blocks c ! (k - 1)) \<or>
            \<not> block_is_valid E (blocks c ! k))"
  let ?bs = "take (Suc k) (blocks c) @ rest"
  from a have ne: "?bs \<noteq> []" by auto
  from a have nth: "\<And>j. j \<le> k \<Longrightarrow> ?bs ! j = blocks c ! j"
    by (simp add: nth_append)
  from a have len: "k < length ?bs" by simp
  show "is_valid E (c\<lparr>blocks := ?bs\<rparr>) = Inr False"
  proof (cases "k = 0")
    case True
    with a nth [of 0] ne show ?thesis by (simp add: is_valid_nonempty)
  next
    case False
    with a have "prev_hash (?bs ! k) \<noteq> hash E (?bs ! (k - 1)) \<or> \<not> block_is_valid E (?bs ! k)"
      using nth [of k] nth [of "k - 1"] by simp
    with len False have "\<not> is_valid_from E ?bs 1"
      unfolding is_valid_from_iff by (metis One_nat_def Suc_leI neq0_conv)
    with ne show ?thesis by (simp add: is_valid_nonempty)
  qed
next
  let ?bs = "map (\<lambda>b. b\<lparr>body := f b\<rparr>) (blocks c)"
  show "is_valid E (c\<lparr>blocks := ?bs\<rparr>) = is_valid E c"
  proof (cases "blocks c = []")
    case True
    then show ?thesis by (simp add: is_valid_def)
  next
    case False
    have "is_valid_from E ?bs 1 = is_valid_from E (blocks c) 1"
      unfolding is_valid_from_iff by (auto simp: nth_map)
    with False show ?thesis by (simp add: is_valid_nonempty nth_map)
  qed
qed

theorem is_valid_spec_witness:
  "is_valid sample_env (run sample_env (init sample_env) [Add blk1, Add blk2]) = Inr True \<and>
   is_valid sample_env (run sample_env (init sample_env) [Add blk1, Add stray, Add blk2])
     = Inr False \<and>
   is_valid sample_env
     ((run sample_env (init sample_env) [Add blk1, Add stray, Add blk2])
        \<lparr>blocks := take 3 (blocks (run sample_env (init sample_env)
             [Add blk1, Add stray, Add blk2])) @ [blk1]\<rparr>) = Inr False"
  using is_valid_spec [of "run sample_env (init sample_env) [Add blk1, Add blk2]"
          sample_env 0 "[]" body]
        is_valid_spec [of "run sample_env (init sample_env) [Add blk1, Add stray, Add blk2]"
          sample_env 2 "[blk1]" body]
  by (simp add: sample_defs is_valid_def is_valid_from.simps)

section \<open>The cost counter\<close>

lemma loop_blocks [simp]:
  "blocks (snd (add_mined_blobs_loop E c bi j bl)) = blocks c"
  by (induction bl arbitrary: c j) (auto split: option.splits)




lemma block_get_cost_set_body [simp]:
  "block_get_cost E (set_body b x) = block_get_cost E b"
  by (simp add: block_get_cost_def set_body_def split: body_obj.splits)










section \<open>Completeness of the chain\<close>

lemma all_have_body_iff: "all_have_body bs \<longleftrightarrow> (\<forall>b\<in>set bs. has_body b)"
  by (induction bs) auto

lemma bodiless_from_empty: "bodiless_from idx bs = [] \<longleftrightarrow> (\<forall>b\<in>set bs. has_body b)"
  by (induction bs arbitrary: idx) auto

lemma is_valid_error: "is_valid E c = Inl e \<Longrightarrow> blocks c = []"
  by (cases "blocks c") (auto simp: is_valid_def split: if_splits)

text \<open>
  Claim C6. \<open>is_complete\<close> returns true iff \<open>is_valid\<close> returns true and every block of the
  chain has a body; a chain for which \<open>is_valid\<close> is false, or which holds a block without
  a body, is not complete. The blocks without a body are those \<open>get_bodiless_indices\<close>
  lists.
\<close>

theorem is_complete_spec:
  "(is_complete E c = Inr True \<longleftrightarrow>
      is_valid E c = Inr True \<and> (\<forall>b\<in>set (blocks c). has_body b)) \<and>
   (is_valid E c = Inr False \<or> (\<exists>b\<in>set (blocks c). \<not> has_body b) \<longrightarrow>
      is_complete E c = Inr False) \<and>
   (is_complete E c = Inr True \<longleftrightarrow>
      is_valid E c = Inr True \<and> get_bodiless_indices c = [])"
proof (cases "is_valid E c")
  case (Inl e)
  then have "blocks c = []" by (rule is_valid_error)
  with Inl show ?thesis by (simp add: is_complete_def)
next
  case (Inr v)
  then show ?thesis
    by (cases v)
       (simp_all add: is_complete_def all_have_body_iff get_bodiless_indices_def
          bodiless_from_empty)
qed

theorem is_complete_spec_witness:
  "is_complete sample_env (run sample_env (init sample_env) [Add blk1]) = Inr True \<and>
   (\<exists>b\<in>set (blocks (run sample_env (init sample_env) [Add blk1, Add blk2])). \<not> has_body b) \<and>
   is_complete sample_env (run sample_env (init sample_env) [Add blk1, Add blk2]) = Inr False"
  using is_complete_spec [of sample_env "run sample_env (init sample_env) [Add blk1]"]
        is_complete_spec [of sample_env "run sample_env (init sample_env) [Add blk1, Add blk2]"]
  by (simp add: sample_defs is_valid_def is_valid_from.simps)

section \<open>The freshly constructed chain\<close>

text \<open>
  Claim C9. A freshly constructed chain holds the genesis block only. With a genesis
  block that is valid and has a body, as the specification describes it, the cost of
  the chain is the cost of the genesis block, the chain is valid and complete, and no
  index is without a body.
\<close>

theorem fresh_chain:
  assumes "block_is_valid E (genesis_block E)" and "has_body (genesis_block E)"
  shows "get_cost (init E) = block_get_cost E (genesis_block E) \<and>
         is_valid E (init E) = Inr True \<and>
         is_complete E (init E) = Inr True \<and>
         get_bodiless_indices (init E) = []"
proof -
  have "is_valid_from E [genesis_block E] 1"
    by (subst is_valid_from.simps) simp
  with assms have v: "is_valid E (init E) = Inr True"
    by (simp add: is_valid_def init_def)
  from assms v show ?thesis
    by (simp add: is_complete_def get_bodiless_indices_def get_cost_def init_def)
qed

theorem fresh_chain_witness:
  "block_is_valid sample_env (genesis_block sample_env) \<and>
   has_body (genesis_block sample_env) \<and>
   get_cost (init sample_env) = 1 \<and>
   is_valid sample_env (init sample_env) = Inr True \<and>
   is_complete sample_env (init sample_env) = Inr True \<and>
   get_bodiless_indices (init sample_env) = []"
proof -
  have v: "block_is_valid sample_env (genesis_block sample_env)"
    by (simp add: sample_defs)
  have h: "has_body (genesis_block sample_env)"
    by (simp add: sample_defs)
  from fresh_chain [OF v h] v h show ?thesis
    by (simp add: sample_defs)
qed

section \<open>The logging call of \<open>add\<close>\<close>

text \<open>
  Claim C10. \<open>add\<close> evaluates \<open>block.get_body().blobs\<close> before anything else: it returns
  only if \<open>get_body()\<close> gives an object with the attribute \<open>blobs\<close>, and raises
  AttributeError, leaving the chain as it was, when \<open>get_body()\<close> gives \<open>None\<close>. For a block
  without a body whose \<open>get_body()\<close> does give such an object, \<open>add\<close> appends the block and
  adds its cost, and the check of \<open>has_body()\<close> only keeps \<open>mined_blobs\<close> as it was.
\<close>

theorem add_reads_blobs_first:
  "(fst (add E c b) = Inr () \<longrightarrow> (\<exists>bl. get_body E b = Body bl)) \<and>
   (get_body E b = PyNone \<longrightarrow> add E c b = (Inl AttributeError, c)) \<and>
   (\<not> has_body b \<and> (\<exists>bl. get_body E b = Body bl) \<longrightarrow>
      add E c b = (Inr (), c\<lparr>blocks := blocks c @ [b],
                               cost := cost c + block_get_cost E b\<rparr>))"
  by (cases "get_body E b")
     (auto simp: add_def blobs_def add_mined_blobs_def split: sum.splits prod.splits)

theorem add_reads_blobs_first_witness:
  "fst (add sample_env (init sample_env) blk2) = Inr () \<and>
   \<not> has_body blk2 \<and>
   get_body sample_env blk2 = Body [] \<and>
   blocks (snd (add sample_env (init sample_env) blk2)) = [genesis_block sample_env, blk2] \<and>
   get_body (sample_env\<lparr>absent_body := PyNone\<rparr>) blk2 = PyNone \<and>
   fst (add (sample_env\<lparr>absent_body := PyNone\<rparr>) (init sample_env) blk2) = Inl AttributeError"
  using add_reads_blobs_first [of sample_env "init sample_env" blk2]
        add_reads_blobs_first [of "sample_env\<lparr>absent_body := PyNone\<rparr>" "init sample_env" blk2]
  by (simp add: sample_defs)

section \<open>Building the next block\<close>

lemma mine_result:
  "mine E b = Some b' \<Longrightarrow>
   prev_hash b' = prev_hash b \<and> difficulty b' = difficulty b \<and> body b' = body b \<and>
   nonce b \<le> nonce b' \<and> block_is_valid E b'"
proof (induction rule: mine.raw_induct [where P = "\<lambda>E b b'.
   prev_hash b' = prev_hash b \<and> difficulty b' = difficulty b \<and> body b' = body b \<and>
   nonce b \<le> nonce b' \<and> block_is_valid E b'", rotated, consumes 1, case_names step])
  case (step rec E b b')
  show ?case
  proof (cases "block_is_valid E b")
    case True
    with step(2) show ?thesis by simp
  next
    case False
    with step(2) have "rec E (b\<lparr>nonce := Suc (nonce b)\<rparr>) = Some b'" by simp
    from step(1) [OF this] show ?thesis by simp
  qed
qed

lemma mine_finds:
  "block_is_valid E (b\<lparr>nonce := n\<rparr>) \<Longrightarrow> nonce b \<le> n \<Longrightarrow> \<exists>b'. mine E b = Some b'"
proof (induction "n - nonce b" arbitrary: b)
  case 0
  then have "b\<lparr>nonce := n\<rparr> = b" by simp
  with "0.prems" have "block_is_valid E b" by simp
  then show ?case by (subst mine.simps) simp
next
  case (Suc k)
  show ?case
  proof (cases "block_is_valid E b")
    case True
    then show ?thesis by (subst mine.simps) simp
  next
    case False
    let ?b = "b\<lparr>nonce := Suc (nonce b)\<rparr>"
    from Suc.hyps(2) have "k = n - nonce ?b" and "nonce ?b \<le> n" by simp_all
    moreover from Suc.prems have "block_is_valid E (?b\<lparr>nonce := n\<rparr>)" by simp
    ultimately have "\<exists>b'. mine E ?b = Some b'" by (intro Suc.hyps(1))
    with False show ?thesis by (subst mine.simps) simp
  qed
qed

lemma foldl_builder_add:
  "foldl builder_add bb bl
     = bb\<lparr>pending := pending bb @ bl\<rparr>"
  by (induction bl arbitrary: bb) (simp_all add: builder_add_def)

lemma build_after_adds:
  "build E (foldl builder_add (BlockBuilder p d) bl)
     = mine E \<lparr>prev_hash = p, nonce = 0, difficulty = d, body = Some bl\<rparr>"
  by (simp add: foldl_builder_add build_def BlockBuilder_def)

text \<open>
  Claim C8. \<open>next\<close> leaves the chain as it is: the list of blocks, the cost and
  \<open>mined_blobs\<close> are those of before the call. The block it returns has the hash of the
  last block of the chain as its previous hash (and the difficulty and the blobs of the
  call, and is valid). The call does return a block when the chain has a last block and
  some nonce makes the candidate valid.
\<close>

theorem next_block_spec:
  "snd (next_block E c d bl) = c \<and>
   blocks (snd (next_block E c d bl)) = blocks c \<and>
   cost (snd (next_block E c d bl)) = cost c \<and>
   mined_blobs (snd (next_block E c d bl)) = mined_blobs c \<and>
   (fst (next_block E c d bl) = Some (Inr b) \<longrightarrow>
      blocks c \<noteq> [] \<and> prev_hash b = hash E (last (blocks c)) \<and>
      difficulty b = d \<and> body b = Some bl \<and> block_is_valid E b) \<and>
   (blocks c \<noteq> [] \<and>
    block_is_valid E \<lparr>prev_hash = hash E (last (blocks c)), nonce = n, difficulty = d,
                      body = Some bl\<rparr> \<longrightarrow>
      (\<exists>b'. fst (next_block E c d bl) = Some (Inr b')))"
proof -
  have frame: "snd (next_block E c d bl) = c"
    by (simp add: next_block_def Let_def split: list.splits)
  have ret: "blocks c \<noteq> [] \<and> prev_hash b = hash E (last (blocks c)) \<and>
      difficulty b = d \<and> body b = Some bl \<and> block_is_valid E b"
    if r: "fst (next_block E c d bl) = Some (Inr b)"
  proof -
    from r have ne: "blocks c \<noteq> []"
      by (auto simp: next_block_def)
    with r have "mine E \<lparr>prev_hash = hash E (last (blocks c)), nonce = 0, difficulty = d,
                      body = Some bl\<rparr> = Some b"
      by (cases "blocks c") (auto simp: next_block_def Let_def build_after_adds)
    from mine_result [OF this] ne show ?thesis by simp
  qed
  have fin: "\<exists>b'. fst (next_block E c d bl) = Some (Inr b')"
    if ne: "blocks c \<noteq> []"
    and v: "block_is_valid E \<lparr>prev_hash = hash E (last (blocks c)), nonce = n, difficulty = d,
                      body = Some bl\<rparr>"
  proof -
    let ?b0 = "\<lparr>prev_hash = hash E (last (blocks c)), nonce = 0, difficulty = d,
                      body = Some bl\<rparr>"
    from v have "block_is_valid E (?b0\<lparr>nonce := n\<rparr>)" by simp
    then have "\<exists>b'. mine E ?b0 = Some b'" by (rule mine_finds) simp
    with ne show ?thesis
      by (cases "blocks c") (auto simp: next_block_def Let_def build_after_adds)
  qed
  from frame ret fin show ?thesis by auto
qed

theorem next_block_spec_witness:
  "blocks (run sample_env (init sample_env) [Add blk1, Add blk2]) \<noteq> [] \<and>
   block_is_valid sample_env
     \<lparr>prev_hash = hash sample_env (last (blocks (run sample_env (init sample_env)
         [Add blk1, Add blk2]))), nonce = 1, difficulty = 5, body = Some [[1], [2]]\<rparr> \<and>
   next_block sample_env (run sample_env (init sample_env) [Add blk1, Add blk2]) 5 [[1], [2]]
     = (Some (Inr \<lparr>prev_hash = 2, nonce = 1, difficulty = 5, body = Some [[1], [2]]\<rparr>),
        run sample_env (init sample_env) [Add blk1, Add blk2]) \<and>
   hash sample_env (last (blocks (run sample_env (init sample_env) [Add blk1, Add blk2]))) = 2"
  using next_block_spec [of sample_env "run sample_env (init sample_env) [Add blk1, Add blk2]"
          5 "[[1], [2]]" "\<lparr>prev_hash = 2, nonce = 1, difficulty = 5, body = Some [[1], [2]]\<rparr>" 1]
  by (simp add: sample_defs next_block_def build_def BlockBuilder_def builder_add_def mine.simps)

section \<open>Decoding a chain\<close>

lemma decode_blocks_all_decoded:
  "map (\<lambda>x. block_decode E x hb) rs = map Some bs \<Longrightarrow>
   decode_blocks E hb rs c = add_all E c bs"
proof (induction rs arbitrary: bs c)
  case Nil
  then show ?case by simp
next
  case (Cons r rs)
  then obtain b bs' where bs: "bs = b # bs'" and r: "block_decode E r hb = Some b"
    and rest: "map (\<lambda>x. block_decode E x hb) rs = map Some bs'"
    by (cases bs) auto
  from Cons.IH [OF rest] show ?case
    by (simp add: bs r split: prod.splits sum.splits)
qed

lemma decode_blocks_failing_record:
  "map (\<lambda>x. block_decode E x hb) rs = map Some bs \<Longrightarrow>
   block_decode E r hb = None \<Longrightarrow> add_all E c bs = Inr c' \<Longrightarrow>
   decode_blocks E hb (rs @ r # rest) c = Inl DecodeError"
proof (induction rs arbitrary: bs c)
  case Nil
  then show ?case by simp
next
  case (Cons x rs)
  then obtain b bs' where bs: "bs = b # bs'" and x: "block_decode E x hb = Some b"
    and rest: "map (\<lambda>x. block_decode E x hb) rs = map Some bs'"
    by (cases bs) auto
  obtain res c1 where a: "add E c b = (res, c1)" by (cases "add E c b")
  with Cons.prems(3) bs obtain u where res: "res = Inr u" and all: "add_all E c1 bs' = Inr c'"
    by (cases res) auto
  from Cons.IH [OF rest Cons.prems(2) all] show ?case
    by (simp add: x a res)
qed

lemma decode_blocks_returns:
  "decode_blocks E hb rs c = Inr c' \<Longrightarrow>
   \<exists>bs. map (\<lambda>x. block_decode E x hb) rs = map Some bs \<and> add_all E c bs = Inr c'"
proof (induction rs arbitrary: c)
  case Nil
  then show ?case by simp
next
  case (Cons r rs)
  from Cons.prems obtain b where r: "block_decode E r hb = Some b"
    by (cases "block_decode E r hb") auto
  obtain res c1 where a: "add E c b = (res, c1)" by (cases "add E c b")
  with Cons.prems r obtain u where res: "res = Inr u"
    and rest: "decode_blocks E hb rs c1 = Inr c'"
    by (cases res) auto
  from Cons.IH [OF rest] obtain bs where
    "map (\<lambda>x. block_decode E x hb) rs = map Some bs" and "add_all E c1 bs = Inr c'"
    by blast
  with r a res have "map (\<lambda>x. block_decode E x hb) (r # rs) = map Some (b # bs) \<and>
    add_all E c (b # bs) = Inr c'"
    by simp
  then show ?case by blast
qed

text \<open>
  Claim C7. \<open>decode\<close> parses the wire record, skips the first block record, decodes each
  further record with \<open>Block.decode\<close> and the flag it was given, and adds the blocks one
  after the other to a fresh chain. When the parsing fails, or when the decoding of a
  record fails after the blocks before it were added, DecodeError is raised; a chain is
  returned only when the parsing and the decoding of every record succeeded, and it is
  then the fresh chain with all their blocks added.
\<close>

theorem decode_spec:
  "(parse E data = None \<longrightarrow> decode E data hb = Inl DecodeError) \<and>
   (parse E data = Some recs \<and> drop 1 recs = rs @ r # rest \<and>
    map (\<lambda>x. block_decode E x hb) rs = map Some bs \<and> block_decode E r hb = None \<and>
    add_all E (init E) bs = Inr c' \<longrightarrow>
      decode E data hb = Inl DecodeError) \<and>
   (parse E data = Some recs \<and>
    map (\<lambda>x. block_decode E x hb) (drop 1 recs) = map Some bs \<longrightarrow>
      decode E data hb = add_all E (init E) bs) \<and>
   (decode E data hb = Inr c \<longrightarrow>
      (\<exists>recs bs. parse E data = Some recs \<and>
         map (\<lambda>x. block_decode E x hb) (drop 1 recs) = map Some bs \<and>
         add_all E (init E) bs = Inr c))"
proof (intro conjI impI)
  assume "parse E data = None"
  then show "decode E data hb = Inl DecodeError" by (simp add: decode_def)
next
  assume "parse E data = Some recs \<and> drop 1 recs = rs @ r # rest \<and>
    map (\<lambda>x. block_decode E x hb) rs = map Some bs \<and> block_decode E r hb = None \<and>
    add_all E (init E) bs = Inr c'"
  then show "decode E data hb = Inl DecodeError"
    using decode_blocks_failing_record [of E hb rs bs r "init E" c' rest]
    by (simp add: decode_def)
next
  assume "parse E data = Some recs \<and>
    map (\<lambda>x. block_decode E x hb) (drop 1 recs) = map Some bs"
  then show "decode E data hb = add_all E (init E) bs"
    using decode_blocks_all_decoded [of E hb "drop 1 recs" bs "init E"]
    by (simp add: decode_def)
next
  assume r: "decode E data hb = Inr c"
  then obtain recs where p: "parse E data = Some recs"
    by (cases "parse E data") (auto simp: decode_def)
  with r have "decode_blocks E hb (drop 1 recs) (init E) = Inr c"
    by (simp add: decode_def)
  from decode_blocks_returns [OF this] p
  show "\<exists>recs bs. parse E data = Some recs \<and>
         map (\<lambda>x. block_decode E x hb) (drop 1 recs) = map Some bs \<and>
         add_all E (init E) bs = Inr c"
    by blast
qed

theorem decode_spec_witness:
  "parse sample_env [5, 0] = None \<and>
   decode sample_env [5, 0] True = Inl DecodeError \<and>
   parse sample_env [4, 0, 0, 0, 1, 9, 0, 0, 1, 1, 2, 5, 1, 1, 6, 2, 1, 0]
     = Some [[0, 0, 0, 1], [0, 0, 1, 1, 2, 5, 1, 1, 6], [1, 0]] \<and>
   block_decode sample_env [0, 0, 1, 1, 2, 5, 1, 1, 6] True = Some blk1 \<and>
   block_decode sample_env [1, 0] True = None \<and>
   add_all sample_env (init sample_env) [blk1] = Inr (snd (add sample_env (init sample_env) blk1)) \<and>
   decode sample_env [4, 0, 0, 0, 1, 9, 0, 0, 1, 1, 2, 5, 1, 1, 6, 2, 1, 0] True
     = Inl DecodeError \<and>
   parse sample_env [4, 0, 0, 0, 1, 9, 0, 0, 1, 1, 2, 5, 1, 1, 6, 3, 1, 0, 1]
     = Some [[0, 0, 0, 1], [0, 0, 1, 1, 2, 5, 1, 1, 6], [1, 0, 1]] \<and>
   block_decode sample_env [1, 0, 1] True = Some blk2 \<and>
   decode sample_env [4, 0, 0, 0, 1, 9, 0, 0, 1, 1, 2, 5, 1, 1, 6, 3, 1, 0, 1] True
     = add_all sample_env (init sample_env) [blk1, blk2] \<and>
   map_sum id blocks
     (decode sample_env [4, 0, 0, 0, 1, 9, 0, 0, 1, 1, 2, 5, 1, 1, 6, 3, 1, 0, 1] True)
     = Inr [genesis_block sample_env, blk1, blk2]"
  using decode_spec [of sample_env "[5, 0]" True]
        decode_spec [of sample_env "[4, 0, 0, 0, 1, 9, 0, 0, 1, 1, 2, 5, 1, 1, 6, 2, 1, 0]" True
          "[[0, 0, 0, 1], [0, 0, 1, 1, 2, 5, 1, 1, 6], [1, 0]]" "[[0, 0, 1, 1, 2, 5, 1, 1, 6]]"
          "[1, 0]" "[]" "[blk1]" "snd (add sample_env (init sample_env) blk1)"]
        decode_spec [of sample_env
          "[4, 0, 0, 0, 1, 9, 0, 0, 1, 1, 2, 5, 1, 1, 6, 3, 1, 0, 1]" True
          "[[0, 0, 0, 1], [0, 0, 1, 1, 2, 5, 1, 1, 6], [1, 0, 1]]" "[]" "[]" "[]"
          "[blk1, blk2]"]
  by (simp add: sample_defs decode_def)

section \<open>Replacing a body\<close>

lemma loop_returns:
  "list_all (\<lambda>blob. blob_key E blob \<noteq> None) bl \<Longrightarrow>
   fst (add_mined_blobs_loop E c bi j bl) = Inr ()"
  by (induction bl arbitrary: c j) auto

lemma loop_raises:
  "\<not> list_all (\<lambda>blob. blob_key E blob \<noteq> None) bl \<Longrightarrow>
   fst (add_mined_blobs_loop E c bi j bl) = Inl DecodeError"
  by (induction bl arbitrary: c j) (auto split: option.splits)

lemma get_body_set_body [simp]: "get_body E (set_body cur (get_body E b)) = get_body E b"
  by (auto simp: get_body_def set_body_def split: option.splits body_obj.splits)








section \<open>Encoding and decoding\<close>

lemma add_addable:
  assumes "addable E b"
  shows "\<exists>c'. add E c b = (Inr (), c') \<and> blocks c' = blocks c @ [b]"
proof (cases "body b")
  case None
  with assms obtain bl where "absent_body E = Body bl"
    by (cases "absent_body E") (auto simp: addable_def)
  with None show ?thesis
    by (simp add: add_def get_body_def blobs_def add_mined_blobs_def has_body_def)
next
  case (Some bl)
  let ?i = "int (length (blocks c))"
  obtain res c1 where l: "add_mined_blobs_loop E c ?i 0 bl = (res, c1)"
    by (cases "add_mined_blobs_loop E c ?i 0 bl")
  from assms Some have "fst (add_mined_blobs_loop E c ?i 0 bl) = Inr ()"
    by (simp add: addable_def loop_returns)
  with l have res: "res = Inr ()" by simp
  from l have "blocks c1 = blocks c"
    using loop_blocks [of E c ?i 0 bl] by simp
  with Some l res show ?thesis
    by (simp add: add_def get_body_def blobs_def add_mined_blobs_def has_body_def)
qed

lemma add_all_addable:
  "list_all (addable E) bs \<Longrightarrow> \<exists>c'. add_all E c bs = Inr c' \<and> blocks c' = blocks c @ bs"
proof (induction bs arbitrary: c)
  case Nil
  then show ?case by simp
next
  case (Cons b bs)
  then have "addable E b" and rest: "list_all (addable E) bs" by simp_all
  from add_addable [OF this(1)] obtain c1 where
    a: "add E c b = (Inr (), c1)" and b1: "blocks c1 = blocks c @ [b]"
    by blast
  from Cons.IH [OF rest, of c1] obtain c' where
    "add_all E c1 bs = Inr c'" and "blocks c' = blocks c1 @ bs"
    by blast
  with a b1 show ?case by simp
qed

lemma block_eq_sym: "block_eq a b \<Longrightarrow> block_eq b a"
  by (simp add: block_eq_def)

lemma list_all2_block_eq_bodiless:
  "list_all2 block_eq (map (\<lambda>b. b\<lparr>body := None\<rparr>) bs) bs"
  by (induction bs) (simp_all add: block_eq_def)

text \<open>
  Claim C3, amended. Let the first block of the chain be the genesis block (for the
  encoding without bodies: have the header of the genesis block), let the wire format
  of the message Chain give back the records it was given, let the wire format of a
  block give back every later block of the chain (without its body when bodies are not
  sent), and let \<open>add\<close> return on each of these blocks. Then decoding the encoding with
  bodies returns a chain with the same blocks, headers and bodies; and decoding the
  encoding without bodies returns a chain whose blocks have the same headers and in
  which every block after the first has no body.
\<close>

theorem encode_decode_roundtrip:
  assumes first: "blocks c = g # rest"
    and genesis: "if ib then g = genesis_block E else block_eq g (genesis_block E)"
    and framing: "parse E (encode E c ib) = Some (map (\<lambda>b. block_encode E b ib) (blocks c))"
    and records: "\<forall>b\<in>set rest. block_decode E (block_encode E b ib) ib
                    = Some (if ib then b else b\<lparr>body := None\<rparr>)"
    and adds: "\<forall>b\<in>set rest. addable E (if ib then b else b\<lparr>body := None\<rparr>)"
  shows "\<exists>c'. decode E (encode E c ib) ib = Inr c' \<and>
           (if ib then blocks c' = blocks c
            else list_all2 block_eq (blocks c') (blocks c) \<and>
                 (\<forall>i. 0 < i \<and> i < length (blocks c') \<longrightarrow> \<not> has_body (blocks c' ! i)))"
proof -
  let ?f = "\<lambda>b. if ib then b else b\<lparr>body := None\<rparr>"
  from first framing have
    d: "decode E (encode E c ib) ib
          = decode_blocks E ib (map (\<lambda>b. block_encode E b ib) rest) (init E)"
    by (simp add: decode_def)
  from records have
    "map (\<lambda>x. block_decode E x ib) (map (\<lambda>b. block_encode E b ib) rest) = map Some (map ?f rest)"
    by simp
  then have
    "decode_blocks E ib (map (\<lambda>b. block_encode E b ib) rest) (init E)
       = add_all E (init E) (map ?f rest)"
    by (rule decode_blocks_all_decoded)
  moreover from adds have "list_all (addable E) (map ?f rest)"
    by (cases ib) (simp_all add: list_all_iff)
  from add_all_addable [OF this, of "init E"] obtain c' where
    a: "add_all E (init E) (map ?f rest) = Inr c'"
    and b: "blocks c' = genesis_block E # map ?f rest"
    by (auto simp: init_def)
  ultimately have r: "decode E (encode E c ib) ib = Inr c'"
    using d by simp
  show ?thesis
  proof (cases ib)
    case True
    with b first genesis have "blocks c' = blocks c" by simp
    with r True show ?thesis by simp
  next
    case False
    with b have b': "blocks c' = genesis_block E # map (\<lambda>b. b\<lparr>body := None\<rparr>) rest"
      by simp
    from False genesis have "block_eq (genesis_block E) g"
      by (simp add: block_eq_sym)
    with b' first have "list_all2 block_eq (blocks c') (blocks c)"
      by (simp add: list_all2_block_eq_bodiless)
    moreover have "\<not> has_body (blocks c' ! i)" if "0 < i \<and> i < length (blocks c')" for i
    proof -
      from that obtain k where "i = Suc k" and "k < length rest"
        by (cases i) (auto simp: b')
      then show ?thesis by (simp add: b' has_body_def)
    qed
    ultimately show ?thesis using r False by auto
  qed
qed

theorem encode_decode_roundtrip_witness:
  "blocks (run sample_env (init sample_env) [Add blk1, Add blk2])
     = genesis_block sample_env # [blk1, blk2] \<and>
   map_sum id blocks
     (decode sample_env
        (encode sample_env (run sample_env (init sample_env) [Add blk1, Add blk2]) True) True)
     = Inr [genesis_block sample_env, blk1, blk2] \<and>
   map_sum id blocks
     (decode sample_env
        (encode sample_env (run sample_env (init sample_env) [Add blk1, Add blk2]) False) False)
     = Inr [genesis_block sample_env, blk1\<lparr>body := None\<rparr>, blk2]"
proof -
  let ?c = "run sample_env (init sample_env) [Add blk1, Add blk2]"
  have first: "blocks ?c = genesis_block sample_env # [blk1, blk2]"
    by (simp add: sample_defs)
  have g1: "if True then genesis_block sample_env = genesis_block sample_env
            else block_eq (genesis_block sample_env) (genesis_block sample_env)"
    by simp
  have g2: "if False then genesis_block sample_env = genesis_block sample_env
            else block_eq (genesis_block sample_env) (genesis_block sample_env)"
    by (simp add: block_eq_def)
  have f1: "parse sample_env (encode sample_env ?c True)
              = Some (map (\<lambda>b. block_encode sample_env b True) (blocks ?c))"
    by (simp add: sample_defs encode_def)
  have f2: "parse sample_env (encode sample_env ?c False)
              = Some (map (\<lambda>b. block_encode sample_env b False) (blocks ?c))"
    by (simp add: sample_defs encode_def)
  have r1: "\<forall>b\<in>set [blk1, blk2].
              block_decode sample_env (block_encode sample_env b True) True
                = Some (if True then b else b\<lparr>body := None\<rparr>)"
    by (simp add: sample_defs)
  have r2: "\<forall>b\<in>set [blk1, blk2].
              block_decode sample_env (block_encode sample_env b False) False
                = Some (if False then b else b\<lparr>body := None\<rparr>)"
    by (simp add: sample_defs)
  have a1: "\<forall>b\<in>set [blk1, blk2]. addable sample_env (if True then b else b\<lparr>body := None\<rparr>)"
    by (simp add: sample_defs addable_def)
  have a2: "\<forall>b\<in>set [blk1, blk2]. addable sample_env (if False then b else b\<lparr>body := None\<rparr>)"
    by (simp add: sample_defs addable_def)
  from encode_decode_roundtrip [OF first g1 f1 r1 a1]
       encode_decode_roundtrip [OF first g2 f2 r2 a2] first
  show ?thesis
    by (simp add: sample_defs encode_def decode_def)
qed

theorem encode_decode_counterexample:
  "blocks (run sample_env (init sample_env) [Insert 0 stray])
     = [stray, genesis_block sample_env] \<and>
   map_sum id blocks
     (decode sample_env
        (encode sample_env (run sample_env (init sample_env) [Insert 0 stray]) True) True)
     = Inr [genesis_block sample_env, genesis_block sample_env] \<and>
   \<not> block_eq (genesis_block sample_env) stray \<and>
   decode sample_env
     (encode sample_env
        (run sample_env (init sample_env) [Add blk1, Add blk2, Replace 2 blk2_bad]) True) True
     = Inl DecodeError \<and>
   decode (sample_env\<lparr>absent_body := PyNone\<rparr>)
     (encode (sample_env\<lparr>absent_body := PyNone\<rparr>)
        (run (sample_env\<lparr>absent_body := PyNone\<rparr>) (init (sample_env\<lparr>absent_body := PyNone\<rparr>))
           [Add blk1, Add blk2_full]) False) False
     = Inl AttributeError"
  by (simp add: sample_defs encode_def decode_def)

section \<open>The index of mined blobs\<close>
















end
